theory Spec2Isabelle
  imports Complex_Main "HOL-Library.Sublist"
begin

section \<open>The dev-mesh dashboard: status aggregation (\<^verbatim>\<open>get_status\<close> of dashboard.py)\<close>

text \<open>
  \<^verbatim>\<open>get_status\<close> reads five payloads from the proxy's admin API, probes the
  filesystem for every backend socket and returns one JSON-serialisable dictionary.
  The embedding keeps the payloads as the JSON values \<^verbatim>\<open>json.loads\<close> hands back,
  makes every Python exception a value, and takes the two things the function reads from
  its surroundings as parameters: the filesystem (which paths exist) and Python's
  \<^verbatim>\<open>float\<close> builtin.
\<close>

subsection \<open>Python values and exceptions\<close>

datatype py_error = KeyError | TypeError | AttributeError | IndexError | ValueError

text \<open>
  A Python float: a finite value, an infinity or a NaN. The model needs two facts about a
  float only: whether it is zero (truthiness) and whether it equals 1.
\<close>

datatype pyfloat = Finite rat | PosInf | NegInf | NaN

text \<open>
  What \<^verbatim>\<open>json.loads\<close> returns. A dictionary keeps its insertion order, so it
  is an association list; \<^verbatim>\<open>json.loads\<close> never produces a repeated key.
  Strings are \<^typ>\<open>string\<close>: one \<^typ>\<open>char\<close> per code point below 256.
\<close>

datatype json =
    JNull
  | JBool bool
  | JInt int
  | JFloat pyfloat
  | JStr string
  | JList "json list"
  | JObj "(string \<times> json) list"

text \<open>Sequencing of computations that may raise: the first exception wins.\<close>

definition ebind :: "py_error + 'a \<Rightarrow> ('a \<Rightarrow> py_error + 'b) \<Rightarrow> py_error + 'b" where
  "ebind m f = (case m of Inl e \<Rightarrow> Inl e | Inr v \<Rightarrow> f v)"

text \<open>A \<^verbatim>\<open>for\<close> loop that updates a variable, left to right, stopping at the first exception.\<close>

fun efold :: "('s \<Rightarrow> 'a \<Rightarrow> py_error + 's) \<Rightarrow> 's \<Rightarrow> 'a list \<Rightarrow> py_error + 's" where
  "efold f s [] = Inr s"
| "efold f s (x # xs) = ebind (f s x) (\<lambda>s'. efold f s' xs)"

text \<open>A loop (or comprehension) that appends one result per element.\<close>

fun emap :: "('a \<Rightarrow> py_error + 'b) \<Rightarrow> 'a list \<Rightarrow> py_error + 'b list" where
  "emap f [] = Inr []"
| "emap f (x # xs) = ebind (f x) (\<lambda>y. ebind (emap f xs) (\<lambda>ys. Inr (y # ys)))"

text \<open>Truthiness, as \<^verbatim>\<open>x or default\<close> tests it.\<close>

fun py_truthy :: "json \<Rightarrow> bool" where
  "py_truthy JNull = False"
| "py_truthy (JBool b) = b"
| "py_truthy (JInt n) = (n \<noteq> 0)"
| "py_truthy (JFloat f) = (f \<noteq> Finite 0)"
| "py_truthy (JStr s) = (s \<noteq> [])"
| "py_truthy (JList xs) = (xs \<noteq> [])"
| "py_truthy (JObj kvs) = (kvs \<noteq> [])"

definition py_or :: "json \<Rightarrow> json \<Rightarrow> json" where
  "py_or a d = (if py_truthy a then a else d)"

text \<open>
  \<^verbatim>\<open>x.get(key, default)\<close>: only a dictionary has the method; every other JSON
  value raises AttributeError.
\<close>

fun py_get :: "json \<Rightarrow> string \<Rightarrow> json \<Rightarrow> py_error + json" where
  "py_get (JObj kvs) k d = Inr (case map_of kvs k of None \<Rightarrow> d | Some v \<Rightarrow> v)"
| "py_get _ k d = Inl AttributeError"

text \<open>
  \<^verbatim>\<open>x[key]\<close> with a string key: KeyError on a dictionary without the key,
  TypeError on a list, a string or a value that is not subscriptable.
\<close>

fun py_item :: "json \<Rightarrow> string \<Rightarrow> py_error + json" where
  "py_item (JObj kvs) k = (case map_of kvs k of None \<Rightarrow> Inl KeyError | Some v \<Rightarrow> Inr v)"
| "py_item _ k = Inl TypeError"

text \<open>
  Iteration: a list yields its elements, a string its characters (as strings), a
  dictionary its keys; anything else is not iterable.
\<close>

fun py_iter :: "json \<Rightarrow> py_error + json list" where
  "py_iter (JList xs) = Inr xs"
| "py_iter (JStr s) = Inr (map (\<lambda>c. JStr [c]) s)"
| "py_iter (JObj kvs) = Inr (map (\<lambda>kv. JStr (fst kv)) kvs)"
| "py_iter _ = Inl TypeError"

subsection \<open>String methods\<close>

text \<open>The first occurrence of a separator: the text before it and the text after it.\<close>

fun find_sub :: "string \<Rightarrow> string \<Rightarrow> (string \<times> string) option" where
  "find_sub sep [] = (if sep = [] then Some ([], []) else None)"
| "find_sub sep (c # cs) =
     (if prefix sep (c # cs) then Some ([], drop (length sep) (c # cs))
      else (case find_sub sep cs of None \<Rightarrow> None | Some (b, a) \<Rightarrow> Some (c # b, a)))"

lemma find_sub_Some:
  "find_sub sep s = Some (b, a) \<Longrightarrow> s = b @ sep @ a"
proof (induction s arbitrary: b)
  case Nil
  then show ?case by (simp split: if_splits)
next
  case (Cons c cs)
  show ?case
  proof (cases "prefix sep (c # cs)")
    case True
    with Cons.prems have "b = []" "a = drop (length sep) (c # cs)" by simp_all
    moreover from True obtain r where "c # cs = sep @ r" by (auto simp: prefix_def)
    ultimately show ?thesis by simp
  next
    case False
    with Cons.prems obtain b' where "find_sub sep cs = Some (b', a)" "b = c # b'"
      by (auto split: option.splits)
    with Cons.IH show ?thesis by simp
  qed
qed

lemma find_sub_shorter:
  "find_sub sep s = Some (b, a) \<Longrightarrow> sep \<noteq> [] \<Longrightarrow> length a < length s"
  by (drule find_sub_Some) (cases sep, simp_all)

lemma find_sub_at_start: "sep \<noteq> [] \<Longrightarrow> find_sub sep (sep @ rest) = Some ([], rest)"
  by (cases sep) simp_all

text \<open>
  \<^verbatim>\<open>s.split(sep)\<close> for a non-empty separator: the pieces between the
  non-overlapping occurrences of \<^verbatim>\<open>sep\<close>, found left to right. (Python raises
  ValueError on an empty separator; both calls in the source pass a literal.)
\<close>

function py_split :: "string \<Rightarrow> string \<Rightarrow> string list" where
  "py_split sep s =
     (if sep = [] then [s]
      else (case find_sub sep s of None \<Rightarrow> [s] | Some (b, a) \<Rightarrow> b # py_split sep a))"
  by pat_completeness auto
termination
  by (relation "measure (\<lambda>(sep, s). length s)") (auto dest: find_sub_shorter)

declare py_split.simps [simp del]

text \<open>
  \<^verbatim>\<open>s.replace(old, new)\<close> for a non-empty \<^verbatim>\<open>old\<close>: every non-overlapping
  occurrence, found left to right, is replaced. (Both calls in the source pass a literal.)
\<close>

function py_replace :: "string \<Rightarrow> string \<Rightarrow> string \<Rightarrow> string" where
  "py_replace old new s =
     (if old = [] then s
      else (case find_sub old s of None \<Rightarrow> s | Some (b, a) \<Rightarrow> b @ new @ py_replace old new a))"
  by pat_completeness auto
termination
  by (relation "measure (\<lambda>(old, new, s). length s)") (auto dest: find_sub_shorter)

declare py_replace.simps [simp del]

text \<open>
  The line boundaries of \<^verbatim>\<open>str.splitlines\<close> below code point 256: LF, CR, VT, FF,
  FS, GS, RS and NEL. A CR directly followed by LF is one boundary.
\<close>

definition is_linebreak :: "char \<Rightarrow> bool" where
  "is_linebreak c =
     (c = CHR 0x0A \<or> c = CHR 0x0D \<or> c = CHR 0x0B \<or> c = CHR 0x0C \<or>
      c = CHR 0x1C \<or> c = CHR 0x1D \<or> c = CHR 0x1E \<or> c = CHR 0x85)"

fun splitlines_from :: "string \<Rightarrow> string \<Rightarrow> string list" where
  "splitlines_from cur [] = (if cur = [] then [] else [rev cur])"
| "splitlines_from cur (c # cs) =
     (if is_linebreak c then
        rev cur # splitlines_from []
          (if c = CHR 0x0D \<and> prefix [CHR 0x0A] cs then drop 1 cs else cs)
      else splitlines_from (c # cur) cs)"

definition splitlines :: "string \<Rightarrow> string list" where
  "splitlines s = splitlines_from [] s"

text \<open>
  The whitespace of \<^verbatim>\<open>str.split()\<close> below code point 256: TAB, LF, VT, FF, CR,
  FS, GS, RS, US, space, NEL and the no-break space.
\<close>

definition is_space :: "char \<Rightarrow> bool" where
  "is_space c =
     (c = CHR 0x09 \<or> c = CHR 0x0A \<or> c = CHR 0x0B \<or> c = CHR 0x0C \<or> c = CHR 0x0D \<or>
      c = CHR 0x1C \<or> c = CHR 0x1D \<or> c = CHR 0x1E \<or> c = CHR 0x1F \<or> c = CHR 0x20 \<or>
      c = CHR 0x85 \<or> c = CHR 0xA0)"

text \<open>\<^verbatim>\<open>s.split()\<close>: the maximal runs of characters that are not whitespace.\<close>

fun split_ws_from :: "string \<Rightarrow> string \<Rightarrow> string list" where
  "split_ws_from cur [] = (if cur = [] then [] else [rev cur])"
| "split_ws_from cur (c # cs) =
     (if is_space c then (if cur = [] then split_ws_from [] cs else rev cur # split_ws_from [] cs)
      else split_ws_from (c # cur) cs)"

definition split_ws :: "string \<Rightarrow> string list" where
  "split_ws s = split_ws_from [] s"

text \<open>\<^verbatim>\<open>xs[i]\<close> for \<^verbatim>\<open>i \<ge> 0\<close> and \<^verbatim>\<open>xs[-1]\<close>, with their IndexError.\<close>

definition py_nth :: "'a list \<Rightarrow> nat \<Rightarrow> py_error + 'a" where
  "py_nth xs i = (if i < length xs then Inr (xs ! i) else Inl IndexError)"

definition py_last :: "'a list \<Rightarrow> py_error + 'a" where
  "py_last xs = (if xs = [] then Inl IndexError else Inr (last xs))"

subsection \<open>The surroundings: filesystem and \<^verbatim>\<open>float\<close>\<close>

text \<open>
  \<^verbatim>\<open>os.path.exists(p)\<close> for a string \<^verbatim>\<open>p\<close> never raises. The parameter
  \<open>fs\<close> says which paths exist; the empty path never does (\<^verbatim>\<open>stat\<close> fails on it).
\<close>

definition os_path_exists :: "(string \<Rightarrow> bool) \<Rightarrow> string \<Rightarrow> bool" where
  "os_path_exists fs p = (p \<noteq> [] \<and> fs p)"

text \<open>
  \<^verbatim>\<open>float(tok)\<close> is the parameter \<open>py_float\<close> of the functions below:
  \<open>None\<close> stands for ValueError, the only exception \<^verbatim>\<open>float\<close> raises on a string.
\<close>

type_synonym float_reader = "string \<Rightarrow> pyfloat option"

subsection \<open>Upstream health from the metrics text (source lines 86 to 94)\<close>

definition dquote :: char where
  "dquote = CHR 0x22"

definition gauge_prefix :: string where
  "gauge_prefix = ''caddy_reverse_proxy_upstreams_healthy{''"

definition upstream_label :: string where
  "upstream_label = ''upstream='' @ [dquote]"

text \<open>
  The body of the \<^verbatim>\<open>try\<close>: the address between the first \<^verbatim>\<open>upstream="\<close> and the
  next double quote, and whether the last whitespace-separated token reads as 1.
\<close>

definition health_line :: "float_reader \<Rightarrow> string \<Rightarrow> py_error + (string \<times> bool)" where
  "health_line py_float line =
     ebind (py_nth (py_split upstream_label line) 1) (\<lambda>rest.
     ebind (py_nth (py_split [dquote] rest) 0) (\<lambda>addr.
     ebind (py_last (split_ws line)) (\<lambda>tok.
     (case py_float tok of
        None \<Rightarrow> Inl ValueError
      | Some val \<Rightarrow> Inr (addr, val = Finite 1)))))"

text \<open>One line of the loop; \<^verbatim>\<open>except (IndexError, ValueError): pass\<close> catches those two only.\<close>

definition health_step ::
  "float_reader \<Rightarrow> (string \<rightharpoonup> bool) \<Rightarrow> string \<Rightarrow> py_error + (string \<rightharpoonup> bool)" where
  "health_step py_float health_map line =
     (if prefix gauge_prefix line then
        (case health_line py_float line of
           Inr (addr, h) \<Rightarrow> Inr (health_map(addr \<mapsto> h))
         | Inl e \<Rightarrow> (if e = IndexError \<or> e = ValueError then Inr health_map else Inl e))
      else Inr health_map)"

definition parse_health :: "float_reader \<Rightarrow> string \<Rightarrow> py_error + (string \<rightharpoonup> bool)" where
  "parse_health py_float metrics_text =
     efold (health_step py_float) Map.empty (splitlines metrics_text)"

subsection \<open>Upstream lookup by address (source lines 97 to 99)\<close>

text \<open>
  \<^verbatim>\<open>upstream_map[u["address"]] = u\<close>. The map is only ever read at a string (the
  dial string of a route), so the model keeps its string keys: an address that is a
  number, a boolean or null is stored by Python under a key no string equals, and an
  address that is a list or a dictionary is unhashable.
\<close>

definition index_step :: "(string \<rightharpoonup> json) \<Rightarrow> json \<Rightarrow> py_error + (string \<rightharpoonup> json)" where
  "index_step upstream_map u =
     ebind (py_item u ''address'') (\<lambda>address.
     (case address of
        JStr a \<Rightarrow> Inr (upstream_map(a \<mapsto> u))
      | JList xs \<Rightarrow> Inl TypeError
      | JObj kvs \<Rightarrow> Inl TypeError
      | _ \<Rightarrow> Inr upstream_map))"

definition index_upstreams :: "json \<Rightarrow> py_error + (string \<rightharpoonup> json)" where
  "index_upstreams upstreams = ebind (py_iter upstreams) (efold index_step Map.empty)"

subsection \<open>One route (source lines 103 to 131)\<close>

text \<open>Lines 104 to 106: the hosts of all matchers, in order.\<close>

definition route_hosts :: "json \<Rightarrow> py_error + json list" where
  "route_hosts route =
     ebind (py_get route ''match'' (JList [])) (\<lambda>matchers.
     ebind (py_iter matchers) (\<lambda>ms.
     efold (\<lambda>hosts m.
        ebind (py_get m ''host'' (JList [])) (\<lambda>h.
        ebind (py_iter h) (\<lambda>hs. Inr (hosts @ hs)))) [] ms))"

text \<open>Lines 107 to 110: \<^verbatim>\<open>sock\<close> is overwritten by every upstream entry of every handler.\<close>

definition upstreams_step :: "json \<Rightarrow> json \<Rightarrow> py_error + json" where
  "upstreams_step sock h =
     ebind (py_get h ''upstreams'' (JList [])) (\<lambda>upstreams.
     ebind (py_iter upstreams) (\<lambda>us.
     efold (\<lambda>sock u. py_get u ''dial'' (JStr [])) sock us))"

definition route_backend :: "json \<Rightarrow> py_error + json" where
  "route_backend route =
     ebind (py_get route ''handle'' (JList [])) (\<lambda>handlers.
     ebind (py_iter handlers) (\<lambda>hs.
     efold upstreams_step (JStr []) hs))"

text \<open>Line 113: \<^verbatim>\<open>sock.replace("unix/", "").replace("unix//", "/")\<close>.\<close>

definition sock_file_of :: "string \<Rightarrow> string" where
  "sock_file_of sock = py_replace ''unix//'' ''/'' (py_replace ''unix/'' [] sock)"

text \<open>
  Lines 103 to 131. \<^verbatim>\<open>sock.replace\<close> needs a string: any other JSON value has no
  such method.
\<close>

definition route_service ::
  "(string \<Rightarrow> bool) \<Rightarrow> (string \<rightharpoonup> bool) \<Rightarrow> (string \<rightharpoonup> json) \<Rightarrow> json \<Rightarrow> py_error + json" where
  "route_service fs health_map upstream_map route =
     ebind (py_get route ''@id'' (JStr ''unknown'')) (\<lambda>route_id.
     ebind (route_hosts route) (\<lambda>hosts.
     ebind (route_backend route) (\<lambda>sock.
     (case sock of
        JStr sock_addr \<Rightarrow>
          (let sock_file = sock_file_of sock_addr;
               sock_exists = os_path_exists fs sock_file;
               upstream_info = (case upstream_map sock_addr of None \<Rightarrow> JObj [] | Some u \<Rightarrow> u);
               healthy = (case health_map sock_addr of None \<Rightarrow> sock_exists | Some h \<Rightarrow> h)
           in
             ebind (py_get upstream_info ''num_requests'' (JInt 0)) (\<lambda>requests.
             ebind (py_get upstream_info ''fails'' (JInt 0)) (\<lambda>fails.
             Inr (JObj
               [(''id'', route_id),
                (''hosts'', JList hosts),
                (''socket'', JStr sock_file),
                (''socket_exists'', JBool sock_exists),
                (''healthy'', JBool healthy),
                (''requests'', requests),
                (''fails'', fails)]))))
      | _ \<Rightarrow> Inl AttributeError))))"

subsection \<open>TLS and dynamic DNS (source lines 134 to 140)\<close>

definition tls_domains_of :: "json \<Rightarrow> py_error + json" where
  "tls_domains_of tls_config =
     ebind (py_get tls_config ''certificates'' (JObj [])) (\<lambda>certificates.
     ebind (py_get certificates ''automate'' (JList [])) (\<lambda>automate.
     ebind (py_get tls_config ''automation'' (JObj [])) (\<lambda>automation.
     ebind (py_get automation ''policies'' (JList [])) (\<lambda>policies.
     (if py_truthy automate then Inr automate
      else
        ebind (py_iter policies) (\<lambda>ps.
        ebind (emap (\<lambda>p. ebind (py_get p ''subjects'' (JList [])) py_iter) ps) (\<lambda>ss.
        Inr (JList (concat ss)))))))))"

definition dns_of :: "json \<Rightarrow> py_error + json" where
  "dns_of dyn_dns =
     ebind (py_get dyn_dns ''domains'' (JObj [])) (\<lambda>dns_domains.
     ebind (py_get dyn_dns ''versions'' (JObj [])) (\<lambda>dns_versions.
     ebind (py_get dns_versions ''ipv4'' (JBool False)) (\<lambda>ipv4.
     ebind (py_get dns_versions ''ipv6'' (JBool False)) (\<lambda>ipv6.
     Inr (JObj [(''domains'', dns_domains), (''ipv4'', ipv4), (''ipv6'', ipv6)])))))"

subsection \<open>\<^verbatim>\<open>get_status\<close>\<close>

text \<open>
  The five arguments after the surroundings are what the five fetches returned:
  \<open>JNull\<close> (Python's None) when \<^verbatim>\<open>caddy_get\<close> failed, \<open>None\<close> when
  \<^verbatim>\<open>caddy_get_text\<close> failed. Lines 79 to 83 replace every falsy payload by its default.
\<close>

definition get_status ::
  "float_reader \<Rightarrow> (string \<Rightarrow> bool) \<Rightarrow> json \<Rightarrow> json \<Rightarrow> json \<Rightarrow> json \<Rightarrow> string option
     \<Rightarrow> py_error + json" where
  "get_status py_float fs routes_raw upstreams_raw tls_raw dyn_raw metrics_raw =
     (let routes = py_or routes_raw (JList []);
          upstreams = py_or upstreams_raw (JList []);
          tls_config = py_or tls_raw (JObj []);
          dyn_dns = py_or dyn_raw (JObj []);
          metrics_text = (case metrics_raw of None \<Rightarrow> [] | Some t \<Rightarrow> t)
      in
        ebind (parse_health py_float metrics_text) (\<lambda>health_map.
        ebind (index_upstreams upstreams) (\<lambda>upstream_map.
        ebind (ebind (py_iter routes) (emap (route_service fs health_map upstream_map))) (\<lambda>services.
        ebind (tls_domains_of tls_config) (\<lambda>tls_domains.
        ebind (dns_of dyn_dns) (\<lambda>dns.
        Inr (JObj
          [(''services'', JList services),
           (''tls_domains'', tls_domains),
           (''dns'', dns)])))))))"

section \<open>Reading a result, and what a route declares\<close>

text \<open>
  Total readers of JSON values, used to state properties: a field of a dictionary with a
  default (\<open>JNull\<close> for \<open>obj_field\<close>), the service records of a status, and the
  metrics text after \<^verbatim>\<open>or ""\<close>.
\<close>

definition obj_get :: "string \<Rightarrow> json \<Rightarrow> json \<Rightarrow> json" where
  "obj_get k d j = (case j of JObj kvs \<Rightarrow> (case map_of kvs k of None \<Rightarrow> d | Some v \<Rightarrow> v) | _ \<Rightarrow> d)"

definition obj_field :: "string \<Rightarrow> json \<Rightarrow> json" where
  "obj_field k j = obj_get k JNull j"

definition services_of :: "json \<Rightarrow> json list" where
  "services_of out = (case obj_field ''services'' out of JList recs \<Rightarrow> recs | _ \<Rightarrow> [])"

definition metrics_text_of :: "string option \<Rightarrow> string" where
  "metrics_text_of metrics_raw = (case metrics_raw of None \<Rightarrow> [] | Some t \<Rightarrow> t)"

text \<open>
  The entries a value yields when iterated (none when it cannot be iterated), the upstream
  entries of a route in scanning order, the dial targets they declare, and the route
  identifier with its placeholder.
\<close>

definition items :: "json \<Rightarrow> json list" where
  "items j = (case py_iter j of Inr xs \<Rightarrow> xs | Inl e \<Rightarrow> [])"

definition handler_upstreams :: "json \<Rightarrow> json list" where
  "handler_upstreams h = items (obj_get ''upstreams'' (JList []) h)"

definition route_upstreams :: "json \<Rightarrow> json list" where
  "route_upstreams route =
     concat (map handler_upstreams (items (obj_get ''handle'' (JList []) route)))"

definition declared_dial :: "json \<Rightarrow> json option" where
  "declared_dial u = (case u of JObj kvs \<Rightarrow> map_of kvs ''dial'' | _ \<Rightarrow> None)"

definition declared_dials :: "json \<Rightarrow> json list" where
  "declared_dials route = List.map_filter declared_dial (route_upstreams route)"

definition entry_dial :: "json \<Rightarrow> json" where
  "entry_dial u = (case declared_dial u of None \<Rightarrow> JStr [] | Some d \<Rightarrow> d)"

definition last_entry_dial :: "json list \<Rightarrow> json" where
  "last_entry_dial us = (if us = [] then JStr [] else entry_dial (last us))"

definition route_id :: "json \<Rightarrow> json" where
  "route_id route = obj_get ''@id'' (JStr ''unknown'') route"

subsection \<open>Shapes\<close>

text \<open>
  The shapes the admin API gives its payloads. A handler is a dictionary whose
  \<^verbatim>\<open>upstreams\<close>, when present, is a list of dictionaries; a route has well-shaped
  handlers when it is a dictionary whose \<^verbatim>\<open>handle\<close>, when present, is a list of
  handlers.
\<close>

definition is_obj :: "json \<Rightarrow> bool" where
  "is_obj j = (case j of JObj kvs \<Rightarrow> True | _ \<Rightarrow> False)"

definition is_list :: "json \<Rightarrow> bool" where
  "is_list j = (case j of JList xs \<Rightarrow> True | _ \<Rightarrow> False)"

definition handler_ok :: "json \<Rightarrow> bool" where
  "handler_ok h =
     (is_obj h \<and>
      (case obj_get ''upstreams'' (JList []) h of JList us \<Rightarrow> list_all is_obj us | _ \<Rightarrow> False))"

definition handlers_ok :: "json \<Rightarrow> bool" where
  "handlers_ok route =
     (is_obj route \<and>
      (case obj_get ''handle'' (JList []) route of JList hs \<Rightarrow> list_all handler_ok hs | _ \<Rightarrow> False))"

text \<open>
  The TLS configuration in the words of the specification: the explicit list of automated
  certificate subjects, the automation policies in order, and the subjects of one policy.
  A well-shaped configuration is a dictionary whose \<^verbatim>\<open>certificates\<close> and
  \<^verbatim>\<open>automation\<close>, when present, are dictionaries, and whose policies, when present,
  are a list of dictionaries with \<^verbatim>\<open>subjects\<close>, when present, a list.
\<close>

definition automate_subjects :: "json \<Rightarrow> json" where
  "automate_subjects tls_config =
     obj_get ''automate'' (JList []) (obj_get ''certificates'' (JObj []) tls_config)"

definition tls_policies :: "json \<Rightarrow> json list" where
  "tls_policies tls_config =
     items (obj_get ''policies'' (JList []) (obj_get ''automation'' (JObj []) tls_config))"

definition policy_subjects :: "json \<Rightarrow> json list" where
  "policy_subjects p = items (obj_get ''subjects'' (JList []) p)"

definition policy_ok :: "json \<Rightarrow> bool" where
  "policy_ok p = (is_obj p \<and> is_list (obj_get ''subjects'' (JList []) p))"

definition tls_ok :: "json \<Rightarrow> bool" where
  "tls_ok tls_config =
     (is_obj tls_config \<and>
      is_obj (obj_get ''certificates'' (JObj []) tls_config) \<and>
      is_obj (obj_get ''automation'' (JObj []) tls_config) \<and>
      (case obj_get ''policies'' (JList []) (obj_get ''automation'' (JObj []) tls_config) of
         JList ps \<Rightarrow> list_all policy_ok ps
       | _ \<Rightarrow> False))"

text \<open>
  Well-shaped payloads: every route has well-shaped handlers, matchers that are dictionaries
  with \<^verbatim>\<open>host\<close>, when present, a list, and a string as the dial field read last;
  every upstream record is a dictionary with a string \<^verbatim>\<open>address\<close>; the dynamic-DNS
  configuration is a dictionary whose \<^verbatim>\<open>versions\<close>, when present, is one.
\<close>

definition is_str :: "json \<Rightarrow> bool" where
  "is_str j = (case j of JStr s \<Rightarrow> True | _ \<Rightarrow> False)"

definition matcher_ok :: "json \<Rightarrow> bool" where
  "matcher_ok m = (is_obj m \<and> is_list (obj_get ''host'' (JList []) m))"

definition route_ok :: "json \<Rightarrow> bool" where
  "route_ok route =
     (handlers_ok route \<and>
      (case obj_get ''match'' (JList []) route of JList ms \<Rightarrow> list_all matcher_ok ms | _ \<Rightarrow> False) \<and>
      is_str (last_entry_dial (route_upstreams route)))"

definition upstream_ok :: "json \<Rightarrow> bool" where
  "upstream_ok u = (is_obj u \<and> is_str (obj_get ''address'' JNull u))"

definition dyn_ok :: "json \<Rightarrow> bool" where
  "dyn_ok dyn_dns = (is_obj dyn_dns \<and> is_obj (obj_get ''versions'' (JObj []) dyn_dns))"

definition payloads_ok :: "json \<Rightarrow> json \<Rightarrow> json \<Rightarrow> json \<Rightarrow> bool" where
  "payloads_ok routes_raw upstreams_raw tls_raw dyn_raw =
     ((case py_or routes_raw (JList []) of JList rs \<Rightarrow> list_all route_ok rs | _ \<Rightarrow> False) \<and>
      (case py_or upstreams_raw (JList []) of JList us \<Rightarrow> list_all upstream_ok us | _ \<Rightarrow> False) \<and>
      tls_ok (py_or tls_raw (JObj [])) \<and>
      dyn_ok (py_or dyn_raw (JObj [])))"

subsection \<open>The prefix rewrite\<close>

text \<open>
  The rewrite of a dial string in the words of the specification: a leading
  \<^verbatim>\<open>unix/\<close> is dropped, which leaves the bare absolute path of
  \<^verbatim>\<open>unix//path\<close>; the rest of the string, and a string without that prefix, is kept.
\<close>

definition strip_unix_prefix :: "string \<Rightarrow> string" where
  "strip_unix_prefix sock = (if prefix ''unix/'' sock then drop (length ''unix/'') sock else sock)"

subsection \<open>Metrics text\<close>

text \<open>The first piece of \<^verbatim>\<open>s.split(sep)\<close>.\<close>

definition first_piece :: "string \<Rightarrow> string \<Rightarrow> string" where
  "first_piece sep s = (case find_sub sep s of None \<Rightarrow> s | Some (b, a) \<Rightarrow> b)"

text \<open>
  A line of a well-formed metrics text is a health-gauge line
  \<^verbatim>\<open>caddy_reverse_proxy_upstreams_healthy{pre upstream="addr" post number\<close> or any line
  that does not start with the gauge's name and brace. In a well-formed gauge line the label
  \<^verbatim>\<open>upstream="\<close> occurs first where the address starts, the address has no double quote
  and does not end in \<^verbatim>\<open>upstream=\<close>, and the number is a non-empty token without
  whitespace that \<^verbatim>\<open>float\<close> reads.
\<close>

datatype metric_line = Gauge string string string string | Other string

fun render_line :: "metric_line \<Rightarrow> string" where
  "render_line (Gauge pre addr post tok) =
     gauge_prefix @ pre @ upstream_label @ addr @ [dquote] @ post @ '' '' @ tok"
| "render_line (Other l) = l"

fun wf_line :: "float_reader \<Rightarrow> metric_line \<Rightarrow> bool" where
  "wf_line py_float (Gauge pre addr post tok) =
     (\<not> sublist upstream_label (gauge_prefix @ pre @ butlast upstream_label) \<and>
      dquote \<notin> set addr \<and> \<not> suffix ''upstream='' addr \<and>
      tok \<noteq> [] \<and> \<not> list_ex is_space tok \<and> py_float tok \<noteq> None)"
| "wf_line py_float (Other l) = (\<not> prefix gauge_prefix l)"


text \<open>
  The samples of the gauge lines, in order, and the mapping the specification asks for: an
  address has an entry exactly when some sample carries it, and the entry says whether the
  number of the last such sample reads as 1.
\<close>

fun gauge_samples :: "metric_line list \<Rightarrow> (string \<times> string) list" where
  "gauge_samples [] = []"
| "gauge_samples (Gauge pre addr post tok # ls) = (addr, tok) # gauge_samples ls"
| "gauge_samples (Other l # ls) = gauge_samples ls"

definition health_from ::
  "float_reader \<Rightarrow> (string \<rightharpoonup> bool) \<Rightarrow> (string \<times> string) list \<Rightarrow> (string \<rightharpoonup> bool)" where
  "health_from py_float start samples a =
     (if filter (\<lambda>sample. fst sample = a) samples = [] then start a
      else Some (py_float (snd (last (filter (\<lambda>sample. fst sample = a) samples)))
                 = Some (Finite 1)))"

text \<open>A text made of lines, each ended by a line feed.\<close>

definition unlines :: "string list \<Rightarrow> string" where
  "unlines ls = concat (map (\<lambda>l. l @ [CHR 0x0A]) ls)"

subsection \<open>Sample inputs\<close>

text \<open>
  A float reader that agrees with \<^verbatim>\<open>float\<close> on the tokens \<^verbatim>\<open>1\<close> and
  \<^verbatim>\<open>0\<close> and rejects every other token, a filesystem with no file, the route of the
  specification's end-to-end scenario with its record, routes that carry a host only, and
  the status with empty TLS and DNS parts.
\<close>

definition sample_float :: float_reader where
  "sample_float tok =
     (if tok = ''1'' then Some (Finite 1) else if tok = ''0'' then Some (Finite 0) else None)"

definition no_files :: "string \<Rightarrow> bool" where
  "no_files p = False"

definition api_route :: json where
  "api_route = JObj
     [(''@id'', JStr ''api''),
      (''match'', JList [JObj [(''host'', JList [JStr ''api.example.com''])]]),
      (''handle'', JList [JObj
         [(''handler'', JStr ''reverse_proxy''),
          (''upstreams'', JList [JObj [(''dial'', JStr ''unix//tmp/caddy-dev/api.sock'')]])]])]"

definition api_up_line :: string where
  "api_up_line = gauge_prefix @ upstream_label @ ''unix//tmp/caddy-dev/api.sock'' @ [dquote] @ ''} 1''"

definition api_record :: "bool \<Rightarrow> json" where
  "api_record healthy = JObj
     [(''id'', JStr ''api''),
      (''hosts'', JList [JStr ''api.example.com'']),
      (''socket'', JStr ''/tmp/caddy-dev/api.sock''),
      (''socket_exists'', JBool False),
      (''healthy'', JBool healthy),
      (''requests'', JInt 0),
      (''fails'', JInt 0)]"

definition status_of :: "json list \<Rightarrow> json" where
  "status_of recs = JObj
     [(''services'', JList recs),
      (''tls_domains'', JList []),
      (''dns'', JObj [(''domains'', JObj []), (''ipv4'', JBool False), (''ipv6'', JBool False)])]"

definition host_route :: "string \<Rightarrow> json" where
  "host_route h = JObj [(''match'', JList [JObj [(''host'', JList [JStr h])]])]"

definition host_record :: "string \<Rightarrow> json" where
  "host_record h = JObj
     [(''id'', JStr ''unknown''),
      (''hosts'', JList [JStr h]),
      (''socket'', JStr []),
      (''socket_exists'', JBool False),
      (''healthy'', JBool False),
      (''requests'', JInt 0),
      (''fails'', JInt 0)]"

definition web_up_line :: string where
  "web_up_line = gauge_prefix @ upstream_label @ ''unix//tmp/caddy-dev/web.sock'' @ [dquote] @ ''} 1''"

definition static_route :: json where
  "static_route = JObj
     [(''@id'', JStr ''static''),
      (''match'', JList [JObj [(''host'', JList [JStr ''static.example.com''])]]),
      (''handle'', JList [JObj [(''handler'', JStr ''file_server'')]])]"

definition static_record :: json where
  "static_record = JObj
     [(''id'', JStr ''static''),
      (''hosts'', JList [JStr ''static.example.com'']),
      (''socket'', JStr []),
      (''socket_exists'', JBool False),
      (''healthy'', JBool False),
      (''requests'', JInt 0),
      (''fails'', JInt 0)]"

text \<open>
  A route with two handlers that each declare one dial target, the same route with a further
  upstream entry that declares none, two TLS configurations, and a metrics text.
\<close>

definition two_handler_route :: json where
  "two_handler_route = JObj
     [(''@id'', JStr ''api''),
      (''handle'', JList
         [JObj [(''handler'', JStr ''reverse_proxy''),
                (''upstreams'', JList [JObj [(''dial'', JStr ''unix//tmp/caddy-dev/a.sock'')]])],
          JObj [(''handler'', JStr ''reverse_proxy''),
                (''upstreams'', JList [JObj [(''dial'', JStr ''unix//tmp/caddy-dev/b.sock'')]])]])]"

definition trailing_entry_route :: json where
  "trailing_entry_route = JObj
     [(''@id'', JStr ''api''),
      (''handle'', JList
         [JObj [(''handler'', JStr ''reverse_proxy''),
                (''upstreams'', JList [JObj [(''dial'', JStr ''unix//tmp/caddy-dev/a.sock'')]])],
          JObj [(''handler'', JStr ''reverse_proxy''),
                (''upstreams'', JList
                   [JObj [(''dial'', JStr ''unix//tmp/caddy-dev/b.sock'')],
                    JObj [(''max_requests'', JInt 5)]])]])]"

definition tls_with_automate :: json where
  "tls_with_automate = JObj
     [(''certificates'', JObj [(''automate'', JList [JStr ''*.a2780.lpds.dev''])]),
      (''automation'', JObj [(''policies'', JList
         [JObj [(''subjects'', JList [JStr ''other.example.com''])]])])]"

definition tls_with_policies :: json where
  "tls_with_policies = JObj
     [(''automation'', JObj [(''policies'', JList
         [JObj [(''subjects'', JList [JStr ''*.a2780.lpds.dev'', JStr ''a2780.lpds.dev''])],
          JObj [(''issuers'', JList [JObj [(''module'', JStr ''internal'')]])],
          JObj [(''subjects'', JList [JStr ''extra.example.com''])]])])]"

definition policies_status :: json where
  "policies_status = JObj
     [(''services'', JList []),
      (''tls_domains'',
         JList [JStr ''*.a2780.lpds.dev'', JStr ''a2780.lpds.dev'', JStr ''extra.example.com'']),
      (''dns'', JObj [(''domains'', JObj []), (''ipv4'', JBool False), (''ipv6'', JBool False)])]"

definition sample_lines :: "metric_line list" where
  "sample_lines =
     [Other ''# TYPE caddy_reverse_proxy_upstreams_healthy gauge'',
      Gauge [] ''unix//tmp/caddy-dev/api.sock'' ''}'' ''1'',
      Gauge [] ''unix//tmp/caddy-dev/web.sock'' ''}'' ''1'',
      Other ''go_goroutines 42'',
      Gauge [] ''unix//tmp/caddy-dev/api.sock'' ''}'' ''0'']"

definition sample_metrics :: string where
  "sample_metrics = unlines (map render_line sample_lines)"

section \<open>Properties\<close>

subsection \<open>Sequencing\<close>

lemma ebind_Inr [simp]: "ebind (Inr v) f = f v"
  by (simp add: ebind_def)

lemma ebind_Inl [simp]: "ebind (Inl e) f = Inl e"
  by (simp add: ebind_def)

lemma ebind_eq_Inr: "ebind m f = Inr y \<longleftrightarrow> (\<exists>v. m = Inr v \<and> f v = Inr y)"
  by (cases m) simp_all

lemma emap_eq_Inr: "emap f xs = Inr ys \<longleftrightarrow> list_all2 (\<lambda>x y. f x = Inr y) xs ys"
proof (induction xs arbitrary: ys)
  case Nil
  show ?case by auto
next
  case (Cons x xs)
  show ?case
    by (cases ys) (auto simp: ebind_eq_Inr Cons.IH)
qed

subsection \<open>What a successful run consists of\<close>

lemma py_get_eq_Inr: "py_get j k d = Inr v \<longleftrightarrow> (\<exists>kvs. j = JObj kvs \<and> v = obj_get k d j)"
  by (cases j) (auto simp: obj_get_def)

lemma get_status_InrD:
  assumes "get_status pf fs rr ur tr dr mr = Inr out"
  obtains hm um routes recs tls dns where
    "parse_health pf (metrics_text_of mr) = Inr hm"
    "index_upstreams (py_or ur (JList [])) = Inr um"
    "py_iter (py_or rr (JList [])) = Inr routes"
    "list_all2 (\<lambda>route rec. route_service fs hm um route = Inr rec) routes recs"
    "tls_domains_of (py_or tr (JObj [])) = Inr tls"
    "out = JObj [(''services'', JList recs), (''tls_domains'', tls), (''dns'', dns)]"
  using assms
  unfolding get_status_def Let_def metrics_text_of_def ebind_eq_Inr emap_eq_Inr
  by blast

lemma route_service_InrD:
  assumes "route_service fs hm um route = Inr rec"
  obtains rid hosts sock req fails where
    "py_get route ''@id'' (JStr ''unknown'') = Inr rid"
    "route_hosts route = Inr hosts"
    "route_backend route = Inr (JStr sock)"
    "rec = JObj
       [(''id'', rid),
        (''hosts'', JList hosts),
        (''socket'', JStr (sock_file_of sock)),
        (''socket_exists'', JBool (os_path_exists fs (sock_file_of sock))),
        (''healthy'', JBool (case hm sock of None \<Rightarrow> os_path_exists fs (sock_file_of sock) | Some h \<Rightarrow> h)),
        (''requests'', req),
        (''fails'', fails)]"
proof -
  from assms obtain rid hosts s where
    a: "py_get route ''@id'' (JStr ''unknown'') = Inr rid" "route_hosts route = Inr hosts"
       "route_backend route = Inr s"
    and b: "(case s of
        JStr sock_addr \<Rightarrow>
          (let sock_file = sock_file_of sock_addr;
               sock_exists = os_path_exists fs sock_file;
               upstream_info = (case um sock_addr of None \<Rightarrow> JObj [] | Some u \<Rightarrow> u);
               healthy = (case hm sock_addr of None \<Rightarrow> sock_exists | Some h \<Rightarrow> h)
           in
             ebind (py_get upstream_info ''num_requests'' (JInt 0)) (\<lambda>requests.
             ebind (py_get upstream_info ''fails'' (JInt 0)) (\<lambda>fails.
             Inr (JObj
               [(''id'', rid),
                (''hosts'', JList hosts),
                (''socket'', JStr sock_file),
                (''socket_exists'', JBool sock_exists),
                (''healthy'', JBool healthy),
                (''requests'', requests),
                (''fails'', fails)]))))
      | _ \<Rightarrow> Inl AttributeError) = Inr rec"
    unfolding route_service_def ebind_eq_Inr by blast
  from b obtain sock where s: "s = JStr sock" by (cases s) simp_all
  from b[unfolded s] obtain req fails where
    "rec = JObj
       [(''id'', rid),
        (''hosts'', JList hosts),
        (''socket'', JStr (sock_file_of sock)),
        (''socket_exists'', JBool (os_path_exists fs (sock_file_of sock))),
        (''healthy'', JBool (case hm sock of None \<Rightarrow> os_path_exists fs (sock_file_of sock) | Some h \<Rightarrow> h)),
        (''requests'', req),
        (''fails'', fails)]"
    by (auto simp: Let_def ebind_eq_Inr)
  with a s that show ?thesis by blast
qed

subsection \<open>The selected backend\<close>

lemma py_get_dial: "py_get u ''dial'' (JStr []) = Inr d \<Longrightarrow> d = entry_dial u"
  by (cases u) (auto simp: entry_dial_def declared_dial_def split: option.splits)

lemma efold_dial:
  "efold (\<lambda>sock u. py_get u ''dial'' (JStr [])) s us = Inr s'
     \<Longrightarrow> s' = (if us = [] then s else entry_dial (last us))"
proof (induction us arbitrary: s)
  case Nil
  then show ?case by simp
next
  case (Cons u us)
  then obtain d where d: "py_get u ''dial'' (JStr []) = Inr d"
    and r: "efold (\<lambda>sock u. py_get u ''dial'' (JStr [])) d us = Inr s'"
    by (auto simp: ebind_eq_Inr)
  from Cons.IH[OF r] py_get_dial[OF d] show ?case by simp
qed

lemma upstreams_step_Inr:
  assumes "upstreams_step s h = Inr s'"
  shows "s' = (if handler_upstreams h = [] then s else entry_dial (last (handler_upstreams h)))"
proof -
  from assms obtain v us where v: "py_get h ''upstreams'' (JList []) = Inr v"
    and us: "py_iter v = Inr us"
    and f: "efold (\<lambda>sock u. py_get u ''dial'' (JStr [])) s us = Inr s'"
    unfolding upstreams_step_def ebind_eq_Inr by blast
  from v us have "handler_upstreams h = us"
    by (auto simp: handler_upstreams_def items_def py_get_eq_Inr)
  with efold_dial[OF f] show ?thesis by simp
qed

lemma efold_upstreams_step:
  "efold upstreams_step s hs = Inr s'
     \<Longrightarrow> s' = (if concat (map handler_upstreams hs) = [] then s
               else entry_dial (last (concat (map handler_upstreams hs))))"
proof (induction hs arbitrary: s)
  case Nil
  then show ?case by simp
next
  case (Cons h hs)
  then obtain t where t: "upstreams_step s h = Inr t" and r: "efold upstreams_step t hs = Inr s'"
    by (auto simp: ebind_eq_Inr)
  define rest where "rest = concat (map handler_upstreams hs)"
  have c: "concat (map handler_upstreams (h # hs)) = handler_upstreams h @ rest"
    by (simp add: rest_def)
  from Cons.IH[OF r] have b: "s' = (if rest = [] then t else entry_dial (last rest))"
    by (simp only: rest_def)
  from upstreams_step_Inr[OF t] b show ?case
    unfolding c by (cases "rest = []") simp_all
qed

lemma route_backend_Inr:
  assumes "route_backend route = Inr sock"
  shows "sock = last_entry_dial (route_upstreams route)"
proof -
  from assms obtain v hs where v: "py_get route ''handle'' (JList []) = Inr v"
    and hs: "py_iter v = Inr hs" and f: "efold upstreams_step (JStr []) hs = Inr sock"
    unfolding route_backend_def ebind_eq_Inr by blast
  from v hs have "route_upstreams route = concat (map handler_upstreams hs)"
    by (auto simp: route_upstreams_def items_def py_get_eq_Inr)
  with efold_upstreams_step[OF f] show ?thesis by (simp add: last_entry_dial_def)
qed

lemma no_dials_last_entry:
  "declared_dials route = [] \<Longrightarrow> last_entry_dial (route_upstreams route) = JStr []"
  by (auto simp: declared_dials_def last_entry_dial_def entry_dial_def List.map_filter_def
      filter_empty_conv split: option.splits)

lemma all_dials_last_entry:
  assumes "list_all (\<lambda>u. declared_dial u \<noteq> None) us" "us \<noteq> []"
  shows "last_entry_dial us = last (List.map_filter declared_dial us)"
proof -
  from assms(1) have "List.map_filter declared_dial us = map entry_dial us"
    by (induction us) (auto simp: List.map_filter_def entry_dial_def)
  with assms(2) show ?thesis by (simp add: last_entry_dial_def last_map)
qed

lemma sock_file_of_empty: "sock_file_of [] = []"
  by (simp add: sock_file_of_def py_replace.simps)

subsection \<open>Evaluation on the samples\<close>

lemmas eval_defs =
  get_status_def py_or_def parse_health_def splitlines_def index_upstreams_def index_step_def
  tls_domains_of_def dns_of_def route_service_def route_hosts_def route_backend_def
  upstreams_step_def sock_file_of_def os_path_exists_def health_step_def health_line_def
  py_split.simps py_replace.simps split_ws_def py_nth_def py_last_def gauge_prefix_def
  upstream_label_def dquote_def is_linebreak_def is_space_def

lemma api_up_run:
  "get_status sample_float no_files (JList [api_route]) JNull JNull JNull (Some api_up_line)
     = Inr (status_of [api_record True])"
  by (simp add: eval_defs api_route_def api_up_line_def api_record_def status_of_def
      sample_float_def no_files_def)

lemma api_sock_file: "sock_file_of ''unix//tmp/caddy-dev/api.sock'' = ''/tmp/caddy-dev/api.sock''"
  by (simp add: sock_file_of_def py_replace.simps)

lemma api_route_parts:
  "py_get api_route ''@id'' (JStr ''unknown'') = Inr (JStr ''api'')"
  "route_hosts api_route = Inr [JStr ''api.example.com'']"
  "route_backend api_route = Inr (JStr ''unix//tmp/caddy-dev/api.sock'')"
  by (simp_all add: api_route_def route_hosts_def route_backend_def upstreams_step_def)

lemma two_hosts_run:
  "get_status sample_float no_files (JList [host_route ''a.example.com'', host_route ''b.example.com''])
     JNull JNull JNull None
     = Inr (status_of [host_record ''a.example.com'', host_record ''b.example.com''])"
  by (simp add: eval_defs host_route_def host_record_def status_of_def no_files_def)

lemma services_of_status_of: "services_of (status_of recs) = recs"
  by (simp add: services_of_def status_of_def obj_field_def obj_get_def)


lemma static_run:
  "get_status sample_float no_files (JList [static_route]) JNull JNull JNull None
     = Inr (status_of [static_record])"
  by (simp add: eval_defs static_route_def static_record_def status_of_def no_files_def)

lemma web_up_health:
  "parse_health sample_float web_up_line = Inr [''unix//tmp/caddy-dev/web.sock'' \<mapsto> True]"
  by (simp add: eval_defs web_up_line_def sample_float_def)

subsection \<open>Every fetch failed\<close>

text \<open>
  C3. When all five fetches fail, \<^verbatim>\<open>caddy_get\<close> returns None four times and
  \<^verbatim>\<open>caddy_get_text\<close> returns None; \<^verbatim>\<open>get_status\<close> then returns, without raising,
  exactly \<^verbatim>\<open>{services: [], tls_domains: [], dns: {domains: {}, ipv4: false, ipv6: false}}\<close>,
  whatever the filesystem holds.
\<close>

theorem get_status_all_fetches_failed:
  "get_status py_float fs JNull JNull JNull JNull None =
     Inr (JObj
       [(''services'', JList []),
        (''tls_domains'', JList []),
        (''dns'', JObj [(''domains'', JObj []), (''ipv4'', JBool False), (''ipv6'', JBool False)])])"
  by (simp add: get_status_def py_or_def parse_health_def splitlines_def index_upstreams_def
      tls_domains_of_def dns_of_def)

subsection \<open>An upstream record without an address\<close>

text \<open>
  C2. The claim is that no missing sub-field makes \<^verbatim>\<open>get_status\<close> raise. Line 99 reads
  \<^verbatim>\<open>u["address"]\<close> by subscript, not by \<^verbatim>\<open>get\<close>: with every other payload
  missing and an upstream list holding one record that has no \<^verbatim>\<open>address\<close> field,
  \<^verbatim>\<open>get_status\<close> raises KeyError.
\<close>

theorem get_status_upstream_without_address:
  "get_status py_float fs JNull (JList [JObj [(''num_requests'', JInt 3), (''fails'', JInt 0)]])
     JNull JNull None = Inl KeyError"
  by (simp add: get_status_def py_or_def parse_health_def splitlines_def index_upstreams_def
      index_step_def)

subsection \<open>The health verdict\<close>

text \<open>
  C1. In every status that \<^verbatim>\<open>get_status\<close> returns, the records follow the routes one
  to one, and for each route with dial string \<open>sock\<close> the record's \<^verbatim>\<open>healthy\<close>
  field is the boolean the health map holds for \<open>sock\<close> when it holds one, and the value
  of \<^verbatim>\<open>socket_exists\<close> (the existence probe of the socket file) otherwise. In both cases
  it is a boolean.
\<close>

theorem healthy_from_health_map_or_socket:
  assumes "get_status py_float fs routes_raw upstreams_raw tls_raw dyn_raw metrics_raw = Inr out"
  shows "\<exists>health_map routes.
     parse_health py_float (metrics_text_of metrics_raw) = Inr health_map \<and>
     py_iter (py_or routes_raw (JList [])) = Inr routes \<and>
     list_all2 (\<lambda>route rec. \<exists>sock.
        route_backend route = Inr (JStr sock) \<and>
        obj_field ''socket_exists'' rec = JBool (os_path_exists fs (sock_file_of sock)) \<and>
        obj_field ''healthy'' rec =
          JBool (case health_map sock of
                   Some h \<Rightarrow> h
                 | None \<Rightarrow> os_path_exists fs (sock_file_of sock)))
       routes (services_of out)"
proof -
  from assms obtain hm um routes recs tls dns where
    hm: "parse_health py_float (metrics_text_of metrics_raw) = Inr hm"
    and routes: "py_iter (py_or routes_raw (JList [])) = Inr routes"
    and recs: "list_all2 (\<lambda>route rec. route_service fs hm um route = Inr rec) routes recs"
    and out: "out = JObj [(''services'', JList recs), (''tls_domains'', tls), (''dns'', dns)]"
    by (rule get_status_InrD)
  have "list_all2 (\<lambda>route rec. \<exists>sock.
        route_backend route = Inr (JStr sock) \<and>
        obj_field ''socket_exists'' rec = JBool (os_path_exists fs (sock_file_of sock)) \<and>
        obj_field ''healthy'' rec =
          JBool (case hm sock of
                   Some h \<Rightarrow> h
                 | None \<Rightarrow> os_path_exists fs (sock_file_of sock))) routes recs"
    using recs
  proof (rule list_all2_mono)
    fix route rec
    assume "route_service fs hm um route = Inr rec"
    then show "\<exists>sock.
        route_backend route = Inr (JStr sock) \<and>
        obj_field ''socket_exists'' rec = JBool (os_path_exists fs (sock_file_of sock)) \<and>
        obj_field ''healthy'' rec =
          JBool (case hm sock of
                   Some h \<Rightarrow> h
                 | None \<Rightarrow> os_path_exists fs (sock_file_of sock))"
      by (elim route_service_InrD) (auto simp: obj_field_def obj_get_def split: option.splits)
  qed
  moreover from out have "services_of out = recs"
    by (simp add: services_of_def obj_field_def obj_get_def)
  ultimately show ?thesis using hm routes by blast
qed

theorem healthy_from_health_map_or_socket_witness:
  "get_status sample_float no_files (JList [api_route]) JNull JNull JNull (Some api_up_line)
     = Inr (status_of [api_record True]) \<and>
   (\<exists>health_map routes.
     parse_health sample_float (metrics_text_of (Some api_up_line)) = Inr health_map \<and>
     py_iter (py_or (JList [api_route]) (JList [])) = Inr routes \<and>
     list_all2 (\<lambda>route rec. \<exists>sock.
        route_backend route = Inr (JStr sock) \<and>
        obj_field ''socket_exists'' rec = JBool (os_path_exists no_files (sock_file_of sock)) \<and>
        obj_field ''healthy'' rec =
          JBool (case health_map sock of
                   Some h \<Rightarrow> h
                 | None \<Rightarrow> os_path_exists no_files (sock_file_of sock)))
       routes (services_of (status_of [api_record True])))"
  using healthy_from_health_map_or_socket[OF api_up_run] api_up_run by (rule_tac conjI)

subsection \<open>The end-to-end scenario\<close>

text \<open>
  C5. The single route \<^verbatim>\<open>api\<close> with host \<^verbatim>\<open>api.example.com\<close> and dial string
  \<^verbatim>\<open>unix//tmp/caddy-dev/api.sock\<close>, an empty upstream list, a metrics text whose
  health map has no entry for that dial string, and a filesystem without
  \<^verbatim>\<open>/tmp/caddy-dev/api.sock\<close>: the services are exactly the one record with that id
  and host, socket \<^verbatim>\<open>/tmp/caddy-dev/api.sock\<close>, \<^verbatim>\<open>socket_exists\<close> and
  \<^verbatim>\<open>healthy\<close> false, and zero requests and fails.
\<close>

theorem api_route_scenario:
  assumes "parse_health py_float metrics_text = Inr health_map"
    and "health_map ''unix//tmp/caddy-dev/api.sock'' = None"
    and "\<not> fs ''/tmp/caddy-dev/api.sock''"
  shows "get_status py_float fs (JList [api_route]) (JList []) JNull JNull (Some metrics_text)
     = Inr (status_of [api_record False])"
  using assms
  by (simp add: get_status_def py_or_def index_upstreams_def tls_domains_of_def dns_of_def
      route_service_def api_route_parts api_sock_file os_path_exists_def api_record_def status_of_def)

theorem api_route_scenario_witness:
  "parse_health sample_float web_up_line = Inr [''unix//tmp/caddy-dev/web.sock'' \<mapsto> True] \<and>
   [''unix//tmp/caddy-dev/web.sock'' \<mapsto> True] ''unix//tmp/caddy-dev/api.sock'' = None \<and>
   \<not> no_files ''/tmp/caddy-dev/api.sock'' \<and>
   get_status sample_float no_files (JList [api_route]) (JList []) JNull JNull (Some web_up_line)
     = Inr (status_of [api_record False])"
proof -
  have a: "[''unix//tmp/caddy-dev/web.sock'' \<mapsto> True] ''unix//tmp/caddy-dev/api.sock'' = None"
    by simp
  have b: "\<not> no_files ''/tmp/caddy-dev/api.sock''"
    by (simp add: no_files_def)
  from api_route_scenario[where fs = no_files, OF web_up_health a b] web_up_health a b show ?thesis
    by (intro conjI)
qed

subsection \<open>Record identifiers\<close>

text \<open>
  C4, as amended. In every status that \<^verbatim>\<open>get_status\<close> returns, the \<^verbatim>\<open>id\<close> fields of
  the records are, in order, the \<^verbatim>\<open>@id\<close> fields of the routes, with the placeholder
  \<^verbatim>\<open>unknown\<close> for a route that has none; so the ids are pairwise distinct exactly when
  those values are.
\<close>

theorem service_ids_follow_routes:
  assumes "get_status py_float fs routes_raw upstreams_raw tls_raw dyn_raw metrics_raw = Inr out"
  shows "\<exists>routes.
     py_iter (py_or routes_raw (JList [])) = Inr routes \<and>
     map (obj_field ''id'') (services_of out) = map route_id routes \<and>
     (distinct (map (obj_field ''id'') (services_of out)) \<longleftrightarrow> distinct (map route_id routes))"
proof -
  from assms obtain hm um routes recs tls dns where
    routes: "py_iter (py_or routes_raw (JList [])) = Inr routes"
    and recs: "list_all2 (\<lambda>route rec. route_service fs hm um route = Inr rec) routes recs"
    and out: "out = JObj [(''services'', JList recs), (''tls_domains'', tls), (''dns'', dns)]"
    by (rule get_status_InrD)
  have "list_all2 (\<lambda>route rec. obj_field ''id'' rec = route_id route) routes recs"
    using recs
  proof (rule list_all2_mono)
    fix route rec
    assume "route_service fs hm um route = Inr rec"
    then show "obj_field ''id'' rec = route_id route"
      by (elim route_service_InrD)
        (auto simp: obj_field_def route_id_def py_get_eq_Inr obj_get_def)
  qed
  then have "map (obj_field ''id'') recs = map route_id routes"
    by (induction routes recs rule: list_all2_induct) simp_all
  moreover from out have "services_of out = recs"
    by (simp add: services_of_def obj_field_def obj_get_def)
  ultimately show ?thesis using routes by simp
qed

theorem service_ids_follow_routes_witness:
  "get_status sample_float no_files (JList [api_route, host_route ''b.example.com''])
     JNull JNull JNull None
     = Inr (status_of [api_record False, host_record ''b.example.com'']) \<and>
   map (obj_field ''id'') (services_of (status_of [api_record False, host_record ''b.example.com'']))
     = map route_id [api_route, host_route ''b.example.com''] \<and>
   distinct (map (obj_field ''id'')
      (services_of (status_of [api_record False, host_record ''b.example.com''])))"
proof -
  have run: "get_status sample_float no_files (JList [api_route, host_route ''b.example.com''])
     JNull JNull JNull None
     = Inr (status_of [api_record False, host_record ''b.example.com''])"
    by (simp add: eval_defs host_route_def host_record_def api_route_def api_record_def
        status_of_def no_files_def)
  have d: "distinct (map route_id [api_route, host_route ''b.example.com''])"
    by (simp add: route_id_def obj_get_def api_route_def host_route_def)
  from service_ids_follow_routes[OF run] run d show ?thesis
    by (simp add: py_or_def)
qed

text \<open>
  C4, as stated, fails: two routes without an \<^verbatim>\<open>@id\<close> give two records with the id
  \<^verbatim>\<open>unknown\<close>.
\<close>

theorem routes_without_id_share_unknown:
  "get_status sample_float no_files (JList [host_route ''a.example.com'', host_route ''b.example.com''])
     JNull JNull JNull None
     = Inr (status_of [host_record ''a.example.com'', host_record ''b.example.com'']) \<and>
   map (obj_field ''id'') (services_of (status_of [host_record ''a.example.com'', host_record ''b.example.com'']))
     = [JStr ''unknown'', JStr ''unknown''] \<and>
   \<not> distinct (map (obj_field ''id'')
      (services_of (status_of [host_record ''a.example.com'', host_record ''b.example.com''])))"
  by (simp add: two_hosts_run services_of_status_of host_record_def obj_field_def obj_get_def)

subsection \<open>A route without a dial target\<close>

text \<open>
  C10. In every status that \<^verbatim>\<open>get_status\<close> returns, the record of a route none of
  whose upstream entries declares a dial target has the empty string as \<^verbatim>\<open>socket\<close>
  and \<^verbatim>\<open>socket_exists\<close> false; its \<^verbatim>\<open>healthy\<close> field is false when the health map
  has no entry for the empty string.
\<close>

theorem no_dial_route_record:
  assumes "get_status py_float fs routes_raw upstreams_raw tls_raw dyn_raw metrics_raw = Inr out"
  shows "\<exists>health_map routes.
     parse_health py_float (metrics_text_of metrics_raw) = Inr health_map \<and>
     py_iter (py_or routes_raw (JList [])) = Inr routes \<and>
     list_all2 (\<lambda>route rec.
        declared_dials route = [] \<longrightarrow>
          obj_field ''socket'' rec = JStr [] \<and>
          obj_field ''socket_exists'' rec = JBool False \<and>
          (health_map [] = None \<longrightarrow> obj_field ''healthy'' rec = JBool False))
       routes (services_of out)"
proof -
  from assms obtain hm um routes recs tls dns where
    hm: "parse_health py_float (metrics_text_of metrics_raw) = Inr hm"
    and routes: "py_iter (py_or routes_raw (JList [])) = Inr routes"
    and recs: "list_all2 (\<lambda>route rec. route_service fs hm um route = Inr rec) routes recs"
    and out: "out = JObj [(''services'', JList recs), (''tls_domains'', tls), (''dns'', dns)]"
    by (rule get_status_InrD)
  have "list_all2 (\<lambda>route rec.
        declared_dials route = [] \<longrightarrow>
          obj_field ''socket'' rec = JStr [] \<and>
          obj_field ''socket_exists'' rec = JBool False \<and>
          (hm [] = None \<longrightarrow> obj_field ''healthy'' rec = JBool False)) routes recs"
    using recs
  proof (rule list_all2_mono)
    fix route rec
    assume rs: "route_service fs hm um route = Inr rec"
    show "declared_dials route = [] \<longrightarrow>
          obj_field ''socket'' rec = JStr [] \<and>
          obj_field ''socket_exists'' rec = JBool False \<and>
          (hm [] = None \<longrightarrow> obj_field ''healthy'' rec = JBool False)"
    proof
      assume nd: "declared_dials route = []"
      from rs obtain rid hosts sock req fails where
        b: "route_backend route = Inr (JStr sock)"
        and r: "rec = JObj
         [(''id'', rid),
          (''hosts'', JList hosts),
          (''socket'', JStr (sock_file_of sock)),
          (''socket_exists'', JBool (os_path_exists fs (sock_file_of sock))),
          (''healthy'', JBool (case hm sock of None \<Rightarrow> os_path_exists fs (sock_file_of sock) | Some h \<Rightarrow> h)),
          (''requests'', req),
          (''fails'', fails)]"
        by (rule route_service_InrD)
      from route_backend_Inr[OF b] no_dials_last_entry[OF nd] have "sock = []" by simp
      with r show "obj_field ''socket'' rec = JStr [] \<and>
          obj_field ''socket_exists'' rec = JBool False \<and>
          (hm [] = None \<longrightarrow> obj_field ''healthy'' rec = JBool False)"
        by (simp add: obj_field_def obj_get_def sock_file_of_empty os_path_exists_def)
    qed
  qed
  moreover from out have "services_of out = recs"
    by (simp add: services_of_def obj_field_def obj_get_def)
  ultimately show ?thesis using hm routes by blast
qed

theorem no_dial_route_record_witness:
  "get_status sample_float no_files (JList [static_route]) JNull JNull JNull None
     = Inr (status_of [static_record]) \<and>
   declared_dials static_route = [] \<and>
   (\<exists>health_map routes.
     parse_health sample_float (metrics_text_of None) = Inr health_map \<and>
     py_iter (py_or (JList [static_route]) (JList [])) = Inr routes \<and>
     list_all2 (\<lambda>route rec.
        declared_dials route = [] \<longrightarrow>
          obj_field ''socket'' rec = JStr [] \<and>
          obj_field ''socket_exists'' rec = JBool False \<and>
          (health_map [] = None \<longrightarrow> obj_field ''healthy'' rec = JBool False))
       routes (services_of (status_of [static_record])))"
proof -
  have "declared_dials static_route = []"
    by (simp add: declared_dials_def route_upstreams_def handler_upstreams_def items_def
        obj_get_def static_route_def List.map_filter_def)
  with no_dial_route_record[OF static_run] static_run show ?thesis
    by (intro conjI)
qed

subsection \<open>Last dial target\<close>

lemma is_objE: "is_obj j \<Longrightarrow> (\<And>kvs. j = JObj kvs \<Longrightarrow> P) \<Longrightarrow> P"
  by (cases j) (simp_all add: is_obj_def)

lemma py_get_obj: "is_obj j \<Longrightarrow> py_get j k d = Inr (obj_get k d j)"
  by (erule is_objE) (simp add: obj_get_def)

lemma efold_dial_returns:
  "list_all is_obj us \<Longrightarrow> \<exists>s'. efold (\<lambda>sock u. py_get u ''dial'' (JStr [])) s us = Inr s'"
  by (induction us arbitrary: s) (auto simp: py_get_obj)

lemma upstreams_step_returns:
  assumes "handler_ok h"
  shows "\<exists>s'. upstreams_step s h = Inr s'"
proof -
  from assms obtain us where "is_obj h" "obj_get ''upstreams'' (JList []) h = JList us"
    "list_all is_obj us"
    by (auto simp: handler_ok_def split: json.splits)
  with efold_dial_returns[of us s] show ?thesis
    by (auto simp: upstreams_step_def py_get_obj)
qed

lemma efold_upstreams_step_returns:
  "list_all handler_ok hs \<Longrightarrow> \<exists>s'. efold upstreams_step s hs = Inr s'"
proof (induction hs arbitrary: s)
  case Nil
  show ?case by simp
next
  case (Cons h hs)
  from Cons.prems obtain t where "upstreams_step s h = Inr t"
    using upstreams_step_returns[of h s] by auto
  moreover from Cons.prems Cons.IH[of t] obtain s' where "efold upstreams_step t hs = Inr s'"
    by auto
  ultimately show ?case by simp
qed

lemma route_backend_returns:
  assumes "handlers_ok route"
  shows "\<exists>sock. route_backend route = Inr sock"
proof -
  from assms obtain hs where "is_obj route" "obj_get ''handle'' (JList []) route = JList hs"
    "list_all handler_ok hs"
    by (auto simp: handlers_ok_def split: json.splits)
  with efold_upstreams_step_returns[of hs "JStr []"] show ?thesis
    by (auto simp: route_backend_def py_get_obj)
qed

lemmas declared_defs =
  declared_dials_def route_upstreams_def handler_upstreams_def items_def obj_get_def
  declared_dial_def List.map_filter_def

text \<open>
  C7, as amended. For a route with well-shaped handlers the selected backend is the
  \<^verbatim>\<open>dial\<close> field of the last upstream entry scanned, over all handlers in order, and
  the empty string when that entry has no \<^verbatim>\<open>dial\<close> field or when there is no entry.
  So when every upstream entry declares a dial target, the last dial target wins; for two
  handlers with one target each, that is the target of the second handler.
\<close>

theorem backend_is_last_entry_dial:
  assumes "handlers_ok route"
  shows "route_backend route = Inr (last_entry_dial (route_upstreams route)) \<and>
    (route_upstreams route \<noteq> [] \<and> list_all (\<lambda>u. declared_dial u \<noteq> None) (route_upstreams route)
      \<longrightarrow> route_backend route = Inr (last (declared_dials route)))"
proof -
  from route_backend_returns[OF assms] obtain sock where s: "route_backend route = Inr sock" ..
  from route_backend_Inr[OF s] s
  have a: "route_backend route = Inr (last_entry_dial (route_upstreams route))" by simp
  moreover have "route_backend route = Inr (last (declared_dials route))"
    if "route_upstreams route \<noteq> []" "list_all (\<lambda>u. declared_dial u \<noteq> None) (route_upstreams route)"
    using a all_dials_last_entry[OF that(2) that(1)] by (simp add: declared_dials_def)
  ultimately show ?thesis by blast
qed

theorem backend_is_last_entry_dial_witness:
  "handlers_ok two_handler_route \<and>
   declared_dials two_handler_route =
     [JStr ''unix//tmp/caddy-dev/a.sock'', JStr ''unix//tmp/caddy-dev/b.sock''] \<and>
   route_backend two_handler_route = Inr (JStr ''unix//tmp/caddy-dev/b.sock'')"
proof -
  have ok: "handlers_ok two_handler_route"
    by (simp add: handlers_ok_def handler_ok_def is_obj_def obj_get_def two_handler_route_def)
  have d: "declared_dials two_handler_route =
     [JStr ''unix//tmp/caddy-dev/a.sock'', JStr ''unix//tmp/caddy-dev/b.sock'']"
    by (simp add: declared_defs two_handler_route_def)
  have u: "route_upstreams two_handler_route \<noteq> [] \<and>
     list_all (\<lambda>u. declared_dial u \<noteq> None) (route_upstreams two_handler_route)"
    by (simp add: declared_defs two_handler_route_def)
  from backend_is_last_entry_dial[OF ok] u
  have "route_backend two_handler_route = Inr (last (declared_dials two_handler_route))"
    by blast
  with ok d show ?thesis by simp
qed

text \<open>
  C7, as stated, fails: when the second handler's upstream list goes on with an entry that
  has no \<^verbatim>\<open>dial\<close> field, the selected backend is the empty string, not the last
  dial target met.
\<close>

theorem trailing_entry_resets_backend:
  "declared_dials trailing_entry_route =
     [JStr ''unix//tmp/caddy-dev/a.sock'', JStr ''unix//tmp/caddy-dev/b.sock''] \<and>
   route_backend trailing_entry_route = Inr (JStr []) \<and>
   route_backend trailing_entry_route \<noteq> Inr (last (declared_dials trailing_entry_route))"
  by (simp add: declared_defs trailing_entry_route_def route_backend_def upstreams_step_def)

subsection \<open>TLS domains\<close>

lemma is_listE: "is_list j \<Longrightarrow> (\<And>xs. j = JList xs \<Longrightarrow> P) \<Longrightarrow> P"
  by (cases j) (simp_all add: is_list_def)

lemma policy_subjects_read:
  assumes "policy_ok p"
  shows "ebind (py_get p ''subjects'' (JList [])) py_iter = Inr (policy_subjects p)"
proof -
  from assms have o: "is_obj p" and l: "is_list (obj_get ''subjects'' (JList []) p)"
    by (simp_all add: policy_ok_def)
  from l show ?thesis
    by (elim is_listE) (simp add: py_get_obj[OF o] policy_subjects_def items_def)
qed

lemma emap_policy_subjects:
  "list_all policy_ok ps
     \<Longrightarrow> emap (\<lambda>p. ebind (py_get p ''subjects'' (JList [])) py_iter) ps = Inr (map policy_subjects ps)"
  by (induction ps) (simp_all add: policy_subjects_read)

lemma tls_domains_of_shaped:
  assumes "tls_ok tls_config"
  shows "tls_domains_of tls_config =
     Inr (if py_truthy (automate_subjects tls_config) then automate_subjects tls_config
          else JList (concat (map policy_subjects (tls_policies tls_config))))"
proof -
  from assms obtain ps where
    o: "is_obj tls_config" "is_obj (obj_get ''certificates'' (JObj []) tls_config)"
       "is_obj (obj_get ''automation'' (JObj []) tls_config)"
    and p: "obj_get ''policies'' (JList []) (obj_get ''automation'' (JObj []) tls_config) = JList ps"
    and ok: "list_all policy_ok ps"
    by (auto simp: tls_ok_def split: json.splits)
  from p have "tls_policies tls_config = ps"
    by (simp add: tls_policies_def items_def)
  with o p emap_policy_subjects[OF ok] show ?thesis
    by (simp add: tls_domains_of_def py_get_obj automate_subjects_def)
qed

text \<open>
  C9. For a well-shaped TLS configuration, \<^verbatim>\<open>tls_domains\<close> is the explicit list of
  automated certificate subjects when that is truthy (for a list: present and non-empty),
  and otherwise the concatenation, in policy order, of the subjects of all automation
  policies; a policy without subjects adds nothing. That value is the \<^verbatim>\<open>tls_domains\<close>
  field of every status \<^verbatim>\<open>get_status\<close> returns for the configuration.
\<close>

theorem tls_domains_prefer_automate:
  assumes "tls_ok tls_config"
  shows "tls_domains_of tls_config =
     Inr (if py_truthy (automate_subjects tls_config) then automate_subjects tls_config
          else JList (concat (map policy_subjects (tls_policies tls_config)))) \<and>
    (get_status py_float fs routes_raw upstreams_raw tls_config dyn_raw metrics_raw = Inr out \<longrightarrow>
       obj_field ''tls_domains'' out =
         (if py_truthy (automate_subjects tls_config) then automate_subjects tls_config
          else JList (concat (map policy_subjects (tls_policies tls_config)))))"
proof (intro conjI impI)
  show a: "tls_domains_of tls_config =
     Inr (if py_truthy (automate_subjects tls_config) then automate_subjects tls_config
          else JList (concat (map policy_subjects (tls_policies tls_config))))"
    using assms by (rule tls_domains_of_shaped)
  assume "get_status py_float fs routes_raw upstreams_raw tls_config dyn_raw metrics_raw = Inr out"
  then obtain recs tls dns where
    t: "tls_domains_of (py_or tls_config (JObj [])) = Inr tls"
    and out: "out = JObj [(''services'', JList recs), (''tls_domains'', tls), (''dns'', dns)]"
    by (rule get_status_InrD)
  from assms have "py_or tls_config (JObj []) = tls_config"
    by (auto simp: tls_ok_def py_or_def elim!: is_objE)
  with t a out show "obj_field ''tls_domains'' out =
         (if py_truthy (automate_subjects tls_config) then automate_subjects tls_config
          else JList (concat (map policy_subjects (tls_policies tls_config))))"
    by (simp add: obj_field_def obj_get_def)
qed

theorem tls_domains_prefer_automate_witness:
  "tls_ok tls_with_automate \<and>
   tls_domains_of tls_with_automate = Inr (JList [JStr ''*.a2780.lpds.dev'']) \<and>
   tls_ok tls_with_policies \<and>
   tls_domains_of tls_with_policies =
     Inr (JList [JStr ''*.a2780.lpds.dev'', JStr ''a2780.lpds.dev'', JStr ''extra.example.com'']) \<and>
   get_status sample_float no_files JNull JNull tls_with_policies JNull None = Inr policies_status \<and>
   obj_field ''tls_domains'' policies_status =
     JList [JStr ''*.a2780.lpds.dev'', JStr ''a2780.lpds.dev'', JStr ''extra.example.com'']"
proof -
  have a: "tls_ok tls_with_automate"
    by (simp add: tls_ok_def policy_ok_def is_obj_def is_list_def obj_get_def tls_with_automate_def)
  have b: "tls_ok tls_with_policies"
    by (simp add: tls_ok_def policy_ok_def is_obj_def is_list_def obj_get_def tls_with_policies_def)
  have run: "get_status sample_float no_files JNull JNull tls_with_policies JNull None
      = Inr policies_status"
    by (simp add: eval_defs tls_with_policies_def policies_status_def)
  note c = tls_domains_prefer_automate[OF b, of sample_float no_files JNull JNull JNull None
      policies_status]
  from tls_domains_prefer_automate[OF a] c a b run show ?thesis
    by (simp add: automate_subjects_def tls_policies_def policy_subjects_def items_def obj_get_def
        tls_with_automate_def tls_with_policies_def)
qed

subsection \<open>The socket file of a dial string\<close>

lemma find_sub_None: "sep \<noteq> [] \<Longrightarrow> find_sub sep s = None \<longleftrightarrow> \<not> sublist sep s"
proof (induction s)
  case Nil
  then show ?case by simp
next
  case (Cons c cs)
  then show ?case
    by (auto simp: sublist_Cons_right split: option.splits)
qed


lemma py_replace_absent: "\<not> sublist old s \<Longrightarrow> py_replace old new s = s"
proof (cases "old = []")
  case True
  then show ?thesis by (simp add: py_replace.simps)
next
  case False
  assume "\<not> sublist old s"
  with False have "find_sub old s = None" by (simp add: find_sub_None)
  with False show ?thesis by (simp add: py_replace.simps)
qed

lemma py_replace_at_start:
  "old \<noteq> [] \<Longrightarrow> py_replace old new (old @ rest) = new @ py_replace old new rest"
  by (subst py_replace.simps) (simp add: find_sub_at_start)

lemma no_unix_no_unix_slash: "\<not> sublist ''unix/'' s \<Longrightarrow> \<not> sublist ''unix//'' s"
proof
  assume a: "\<not> sublist ''unix/'' s" and b: "sublist ''unix//'' s"
  have "sublist ''unix/'' ''unix//''" by (simp add: sublist_code(3))
  from sublist_order.order.trans[OF this b] a show False by simp
qed

lemma sock_file_of_clean_rest:
  assumes "\<not> sublist ''unix/'' (strip_unix_prefix sock)"
  shows "sock_file_of sock = strip_unix_prefix sock"
proof (cases "prefix ''unix/'' sock")
  case False
  with assms have "\<not> sublist ''unix/'' sock"
    by (simp add: strip_unix_prefix_def)
  with False show ?thesis
    by (simp add: sock_file_of_def strip_unix_prefix_def py_replace_absent no_unix_no_unix_slash)
next
  case True
  then obtain rest where sock: "sock = ''unix/'' @ rest"
    by (auto simp: prefix_def)
  with assms have a: "\<not> sublist ''unix/'' rest"
    by (simp add: strip_unix_prefix_def)
  have "py_replace ''unix/'' [] (''unix/'' @ rest) = py_replace ''unix/'' [] rest"
    by (subst py_replace_at_start) simp_all
  also from a have "\<dots> = rest"
    by (rule py_replace_absent)
  finally have 1: "py_replace ''unix/'' [] (''unix/'' @ rest) = rest" .
  from a have 2: "py_replace ''unix//'' ''/'' rest = rest"
    by (intro py_replace_absent no_unix_no_unix_slash)
  have "sock_file_of (''unix/'' @ rest) = rest"
    by (simp only: sock_file_of_def 1 2)
  with sock show ?thesis by (simp add: strip_unix_prefix_def)
qed

text \<open>
  C8. The claim is that only a leading \<^verbatim>\<open>unix/\<close> is rewritten and the rest of the dial
  string is left as it is. Line 113 uses \<^verbatim>\<open>str.replace\<close>, which rewrites every
  occurrence: for the dial string \<^verbatim>\<open>unix//srv/unix/app.sock\<close> the prefix rule gives
  \<^verbatim>\<open>/srv/unix/app.sock\<close>, and the code probes \<^verbatim>\<open>/srv/app.sock\<close>; the string
  \<^verbatim>\<open>/srv/unix/app.sock\<close>, which has no such prefix, is changed as well.
\<close>

theorem sock_file_of_inner_occurrence:
  "strip_unix_prefix ''unix//srv/unix/app.sock'' = ''/srv/unix/app.sock'' \<and>
   sock_file_of ''unix//srv/unix/app.sock'' = ''/srv/app.sock'' \<and>
   strip_unix_prefix ''/srv/unix/app.sock'' = ''/srv/unix/app.sock'' \<and>
   sock_file_of ''/srv/unix/app.sock'' = ''/srv/app.sock''"
  by (simp add: sock_file_of_def strip_unix_prefix_def py_replace.simps)

subsection \<open>The metrics parser\<close>

lemma prefix_within:
  assumes "prefix sep (xs @ sep @ rest)" "xs \<noteq> []" "sep \<noteq> []"
  shows "prefix sep (xs @ butlast sep)"
proof -
  from assms(3) have "xs @ sep @ rest = (xs @ butlast sep) @ (last sep # rest)"
    by (simp add: append_butlast_last_id[symmetric] del: append_butlast_last_id) 
  with assms(1) have "prefix sep ((xs @ butlast sep) @ (last sep # rest))" by simp
  moreover from assms(2,3) have "length sep \<le> length (xs @ butlast sep)"
    by (cases xs) simp_all
  moreover have "prefix (xs @ butlast sep) ((xs @ butlast sep) @ (last sep # rest))"
    by (rule prefixI) simp
  ultimately show ?thesis
    by (meson prefix_length_prefix)
qed

lemma find_sub_first:
  "sep \<noteq> [] \<Longrightarrow> \<not> sublist sep (xs @ butlast sep)
     \<Longrightarrow> find_sub sep (xs @ sep @ rest) = Some (xs, rest)"
proof (induction xs)
  case Nil
  then show ?case by (simp add: find_sub_at_start)
next
  case (Cons x xs)
  have "\<not> prefix sep ((x # xs) @ sep @ rest)"
  proof
    assume "prefix sep ((x # xs) @ sep @ rest)"
    with Cons.prems(1) have "prefix sep ((x # xs) @ butlast sep)"
      by (intro prefix_within) simp_all
    with Cons.prems(2) show False by auto
  qed
  moreover from Cons.prems(2) have "\<not> sublist sep (xs @ butlast sep)"
    by (simp add: sublist_Cons_right)
  ultimately show ?case using Cons.IH Cons.prems(1) by simp
qed

lemma first_piece_Cons:
  "first_piece sep (c # cs) = (if prefix sep (c # cs) then [] else c # first_piece sep cs)"
  by (simp add: first_piece_def split: option.splits)

lemma py_split_first: "sep \<noteq> [] \<Longrightarrow> py_nth (py_split sep s) 0 = Inr (first_piece sep s)"
  by (subst py_split.simps) (simp add: py_nth_def first_piece_def split: option.splits)

lemma py_split_second:
  assumes "sep \<noteq> []" "find_sub sep s = Some (b, a)"
  shows "py_nth (py_split sep s) 1 = Inr (first_piece sep a)"
proof -
  from assms have "py_split sep s = b # py_split sep a"
    by (subst py_split.simps) simp
  moreover from py_split_first[OF assms(1), of a]
  have "py_split sep a \<noteq> [] \<and> py_split sep a ! 0 = first_piece sep a"
    by (auto simp: py_nth_def split: if_splits)
  ultimately show ?thesis by (auto simp: py_nth_def)
qed

lemma py_split_no_second:
  assumes "sep \<noteq> []" "find_sub sep s = None"
  shows "py_nth (py_split sep s) 1 = Inl IndexError"
  using assms by (subst py_split.simps) (simp add: py_nth_def)

lemma takeWhile_stop: "q \<notin> set ys \<Longrightarrow> takeWhile (\<lambda>c. c \<noteq> q) (ys @ q # zs) = ys"
  by (induction ys) auto

lemma same_stop:
  assumes "prefix (xs @ [q]) (ys @ q # zs)" "q \<notin> set xs" "q \<notin> set ys"
  shows "xs = ys"
proof -
  from assms(1) obtain w where w: "ys @ q # zs = xs @ q # w"
    by (auto simp: prefix_def)
  from assms(3) have "takeWhile (\<lambda>c. c \<noteq> q) (ys @ q # zs) = ys"
    by (rule takeWhile_stop)
  moreover from assms(2) have "takeWhile (\<lambda>c. c \<noteq> q) (xs @ q # w) = xs"
    by (rule takeWhile_stop)
  ultimately show ?thesis using w by simp
qed

lemma first_piece_addr:
  "dquote \<notin> set addr \<Longrightarrow> \<not> suffix ''upstream='' addr
     \<Longrightarrow> \<exists>x. first_piece upstream_label (addr @ dquote # more) = addr @ dquote # x"
proof (induction addr)
  case Nil
  show ?case by (simp add: first_piece_Cons upstream_label_def dquote_def)
next
  case (Cons c cs)
  have "\<not> prefix upstream_label ((c # cs) @ dquote # more)"
  proof
    assume "prefix upstream_label ((c # cs) @ dquote # more)"
    then have "prefix (''upstream='' @ [dquote]) ((c # cs) @ dquote # more)"
      by (simp only: upstream_label_def)
    moreover have "dquote \<notin> set ''upstream=''" by (simp add: dquote_def)
    ultimately have "''upstream='' = c # cs" using Cons.prems(1) by (rule same_stop)
    with Cons.prems(2) show False by simp
  qed
  moreover from Cons.prems have "dquote \<notin> set cs" "\<not> suffix ''upstream='' cs"
    by (auto simp: suffix_Cons)
  ultimately show ?case using Cons.IH by (auto simp: first_piece_Cons)
qed

lemma first_piece_dquote:
  "dquote \<notin> set addr \<Longrightarrow> first_piece [dquote] (addr @ dquote # x) = addr"
  by (induction addr) (auto simp: first_piece_Cons)

lemma split_ws_token:
  "\<not> list_ex is_space tok \<Longrightarrow> cur \<noteq> [] \<or> tok \<noteq> []
     \<Longrightarrow> split_ws_from cur tok = [rev cur @ tok]"
  by (induction tok arbitrary: cur) auto

lemma split_ws_last:
  assumes "is_space sp" "tok \<noteq> []" "\<not> list_ex is_space tok"
  shows "split_ws_from cur (xs @ sp # tok) \<noteq> [] \<and> last (split_ws_from cur (xs @ sp # tok)) = tok"
proof (induction xs arbitrary: cur)
  case Nil
  from assms show ?case by (simp add: split_ws_token)
next
  case (Cons x xs)
  from Cons.IH[of "[]"] Cons.IH[of "x # cur"] show ?case by simp
qed

lemma health_line_wf:
  assumes "wf_line py_float (Gauge pre addr post tok)"
  shows "health_line py_float (render_line (Gauge pre addr post tok))
    = Inr (addr, py_float tok = Some (Finite 1))"
proof -
  let ?rest = "addr @ dquote # post @ '' '' @ tok"
  let ?line = "render_line (Gauge pre addr post tok)"
  from assms have a: "\<not> sublist upstream_label ((gauge_prefix @ pre) @ butlast upstream_label)"
    and b: "dquote \<notin> set addr" "\<not> suffix ''upstream='' addr"
    and c: "tok \<noteq> []" "\<not> list_ex is_space tok"
    and d: "py_float tok \<noteq> None"
    by simp_all
  have l: "upstream_label \<noteq> []" by (simp add: upstream_label_def)
  have "?line = (gauge_prefix @ pre) @ upstream_label @ ?rest" by simp
  with find_sub_first[OF l a, of ?rest]
  have "find_sub upstream_label ?line = Some (gauge_prefix @ pre, ?rest)" by simp
  from py_split_second[OF l this]
  have 1: "py_nth (py_split upstream_label ?line) 1 = Inr (first_piece upstream_label ?rest)" .
  from first_piece_addr[OF b] obtain x where
    x: "first_piece upstream_label ?rest = addr @ dquote # x" by blast
  have "py_nth (py_split [dquote] (addr @ dquote # x)) 0 = Inr addr"
    by (simp add: py_split_first first_piece_dquote[OF b(1)])
  then have 2: "py_nth (py_split [dquote] (first_piece upstream_label ?rest)) 0 = Inr addr"
    by (simp only: x)
  have "?line = (gauge_prefix @ pre @ upstream_label @ addr @ [dquote] @ post) @ CHR 0x20 # tok"
    by simp
  moreover have "is_space (CHR 0x20)" by (simp add: is_space_def)
  ultimately have 3: "py_last (split_ws ?line) = Inr tok"
    using split_ws_last[OF _ c, of "CHR 0x20" "[]" "gauge_prefix @ pre @ upstream_label @ addr @ [dquote] @ post"]
    by (simp add: py_last_def split_ws_def)
  from d obtain v where v: "py_float tok = Some v" by auto
  show ?thesis
    unfolding health_line_def 1 2 3 ebind_Inr by (simp add: v)
qed


lemma health_line_errors:
  "health_line py_float line = Inl e \<Longrightarrow> e = IndexError \<or> e = ValueError"
  by (auto simp: health_line_def ebind_def py_nth_def py_last_def
      split: sum.splits if_splits option.splits)

lemma health_step_returns: "\<exists>m. health_step py_float health_map line = Inr m"
proof (cases "health_line py_float line")
  case (Inl e)
  with health_line_errors[OF Inl] show ?thesis by (auto simp: health_step_def)
next
  case (Inr r)
  then show ?thesis by (cases r) (auto simp: health_step_def)
qed

lemma efold_health_step_returns: "\<exists>m. efold (health_step py_float) health_map ls = Inr m"
proof (induction ls arbitrary: health_map)
  case Nil
  show ?case by simp
next
  case (Cons l ls)
  from health_step_returns[of py_float health_map l] obtain m where
    "health_step py_float health_map l = Inr m" ..
  with Cons.IH[of m] show ?case by simp
qed

lemma parse_health_returns: "\<exists>health_map. parse_health py_float metrics_text = Inr health_map"
  by (simp add: parse_health_def efold_health_step_returns)

lemma health_step_wf:
  assumes "wf_line py_float l"
  shows "health_step py_float m (render_line l) = Inr (health_from py_float m (gauge_samples [l]))"
proof (cases l)
  case (Gauge pre addr post tok)
  have p: "prefix gauge_prefix (render_line (Gauge pre addr post tok))" by simp
  have "m(addr \<mapsto> py_float tok = Some (Finite 1)) = health_from py_float m [(addr, tok)]"
    by (rule ext) (simp add: health_from_def)
  with assms show ?thesis
    unfolding Gauge health_step_def
    by (simp only: p if_True health_line_wf sum.case prod.case gauge_samples.simps)
next
  case (Other x)
  have "m = health_from py_float m []" by (rule ext) (simp add: health_from_def)
  with assms Other show ?thesis by (simp add: health_step_def)
qed

lemma health_from_append:
  "health_from py_float (health_from py_float m xs) ys = health_from py_float m (xs @ ys)"
  by (rule ext) (simp add: health_from_def)

lemma gauge_samples_Cons: "gauge_samples (l # ls) = gauge_samples [l] @ gauge_samples ls"
  by (cases l) simp_all

lemma efold_health_step_wf:
  "list_all (wf_line py_float) ls
     \<Longrightarrow> efold (health_step py_float) m (map render_line ls)
           = Inr (health_from py_float m (gauge_samples ls))"
proof (induction ls arbitrary: m)
  case Nil
  have "m = health_from py_float m []" by (rule ext) (simp add: health_from_def)
  then show ?case by simp
next
  case (Cons l ls)
  from Cons.prems have "wf_line py_float l" "list_all (wf_line py_float) ls" by simp_all
  with Cons.IH show ?case
    by (simp add: health_step_wf health_from_append gauge_samples_Cons[of l ls, symmetric])
qed

lemma dom_health_from: "dom (health_from py_float Map.empty samples) = fst ` set samples"
  by (auto simp: health_from_def dom_def filter_empty_conv split: if_splits)

lemma splitlines_from_line:
  "\<not> list_ex is_linebreak l
     \<Longrightarrow> splitlines_from cur (l @ CHR 0x0A # rest) = (rev cur @ l) # splitlines_from [] rest"
  by (induction l arbitrary: cur) (simp_all add: is_linebreak_def)

lemma splitlines_unlines:
  "list_all (\<lambda>l. \<not> list_ex is_linebreak l) ls \<Longrightarrow> splitlines (unlines ls) = ls"
  unfolding splitlines_def unlines_def
  by (induction ls) (simp_all add: splitlines_from_line)

text \<open>
  C6. For every metrics text whose lines are well-formed, the parser returns the mapping
  that has exactly one entry for every address among the health-gauge lines, and none
  else; the entry of an address is true exactly when the number on the last gauge line for
  that address reads as 1.
\<close>

theorem parse_health_well_formed:
  assumes "splitlines metrics_text = map render_line ls"
    and "list_all (wf_line py_float) ls"
  shows "parse_health py_float metrics_text = Inr (health_from py_float Map.empty (gauge_samples ls)) \<and>
    dom (health_from py_float Map.empty (gauge_samples ls)) = fst ` set (gauge_samples ls)"
  using assms by (simp add: parse_health_def efold_health_step_wf dom_health_from)

theorem parse_health_well_formed_witness:
  "splitlines sample_metrics = map render_line sample_lines \<and>
   list_all (wf_line sample_float) sample_lines \<and>
   parse_health sample_float sample_metrics
     = Inr (health_from sample_float Map.empty (gauge_samples sample_lines)) \<and>
   dom (health_from sample_float Map.empty (gauge_samples sample_lines))
     = {''unix//tmp/caddy-dev/api.sock'', ''unix//tmp/caddy-dev/web.sock''} \<and>
   health_from sample_float Map.empty (gauge_samples sample_lines) ''unix//tmp/caddy-dev/api.sock''
     = Some False \<and>
   health_from sample_float Map.empty (gauge_samples sample_lines) ''unix//tmp/caddy-dev/web.sock''
     = Some True"
proof -
  have a: "splitlines sample_metrics = map render_line sample_lines"
    unfolding sample_metrics_def
    by (rule splitlines_unlines)
      (simp add: sample_lines_def gauge_prefix_def upstream_label_def dquote_def is_linebreak_def)
  have b: "list_all (wf_line sample_float) sample_lines"
    by (simp add: sample_lines_def gauge_prefix_def upstream_label_def dquote_def is_space_def
        sample_float_def sublist_code(3) suffix_def)
  have c: "gauge_samples sample_lines =
     [(''unix//tmp/caddy-dev/api.sock'', ''1''), (''unix//tmp/caddy-dev/web.sock'', ''1''),
      (''unix//tmp/caddy-dev/api.sock'', ''0'')]"
    by (simp add: sample_lines_def)
  have d: "health_from sample_float Map.empty (gauge_samples sample_lines) ''unix//tmp/caddy-dev/api.sock''
     = Some False"
    "health_from sample_float Map.empty (gauge_samples sample_lines) ''unix//tmp/caddy-dev/web.sock''
     = Some True"
    by (simp_all add: c health_from_def sample_float_def)
  from parse_health_well_formed[OF a b] a b d show ?thesis
    by (auto simp: c)
qed

subsection \<open>Well-shaped payloads\<close>

text \<open>
  On well-shaped payloads, and whatever the metrics text, \<^verbatim>\<open>get_status\<close> returns a
  status: the metrics loop never raises, and every other lookup meets the shape it expects.
\<close>

lemma is_strE: "is_str j \<Longrightarrow> (\<And>s. j = JStr s \<Longrightarrow> P) \<Longrightarrow> P"
  by (cases j) (simp_all add: is_str_def)

lemma index_step_ok:
  assumes "upstream_ok u" "\<forall>a v. um a = Some v \<longrightarrow> is_obj v"
  shows "\<exists>um'. index_step um u = Inr um' \<and> (\<forall>a v. um' a = Some v \<longrightarrow> is_obj v)"
proof -
  from assms(1) obtain kvs a where u: "u = JObj kvs" and a: "obj_get ''address'' JNull u = JStr a"
    by (auto simp: upstream_ok_def elim!: is_objE is_strE)
  from a u have "py_item u ''address'' = Inr (JStr a)"
    by (auto simp: obj_get_def split: option.splits)
  then have "index_step um u = Inr (um(a \<mapsto> u))"
    by (simp add: index_step_def)
  moreover from assms have "\<forall>b v. (um(a \<mapsto> u)) b = Some v \<longrightarrow> is_obj v"
    by (simp add: upstream_ok_def)
  ultimately show ?thesis by blast
qed

lemma efold_index_step_ok:
  "list_all upstream_ok us \<Longrightarrow> \<forall>a v. um a = Some v \<longrightarrow> is_obj v
     \<Longrightarrow> \<exists>um'. efold index_step um us = Inr um' \<and> (\<forall>a v. um' a = Some v \<longrightarrow> is_obj v)"
proof (induction us arbitrary: um)
  case Nil
  then show ?case by simp
next
  case (Cons u us)
  from Cons.prems obtain um1 where 1: "index_step um u = Inr um1"
    and 2: "\<forall>a v. um1 a = Some v \<longrightarrow> is_obj v"
    using index_step_ok[of u um] by auto
  from Cons.prems Cons.IH[OF _ 2] 1 show ?case by simp
qed

lemma route_hosts_returns:
  assumes "is_obj route" "obj_get ''match'' (JList []) route = JList ms" "list_all matcher_ok ms"
  shows "\<exists>hosts. route_hosts route = Inr hosts"
proof -
  have "\<exists>hosts. efold (\<lambda>hosts m.
        ebind (py_get m ''host'' (JList [])) (\<lambda>h.
        ebind (py_iter h) (\<lambda>hs. Inr (hosts @ hs)))) acc ms = Inr hosts" for acc
    using assms(3)
  proof (induction ms arbitrary: acc)
    case Nil
    show ?case by simp
  next
    case (Cons m ms)
    from Cons.prems obtain hs where "is_obj m" "obj_get ''host'' (JList []) m = JList hs"
      by (auto simp: matcher_ok_def elim: is_listE)
    with Cons.prems Cons.IH[of "acc @ hs"] show ?case
      by (simp add: py_get_obj)
  qed
  with assms(1,2) show ?thesis
    by (simp add: route_hosts_def py_get_obj)
qed

lemma route_service_returns:
  assumes "route_ok route" "\<forall>a v. um a = Some v \<longrightarrow> is_obj v"
  shows "\<exists>rec. route_service fs hm um route = Inr rec"
proof -
  from assms(1) have h: "handlers_ok route" and o: "is_obj route"
    and s: "is_str (last_entry_dial (route_upstreams route))"
    by (simp_all add: route_ok_def handlers_ok_def)
  from assms(1) obtain ms where "obj_get ''match'' (JList []) route = JList ms" "list_all matcher_ok ms"
    by (auto simp: route_ok_def split: json.splits)
  with o obtain hosts where hosts: "route_hosts route = Inr hosts"
    using route_hosts_returns by blast
  from s obtain sock where sock: "last_entry_dial (route_upstreams route) = JStr sock"
    by (rule is_strE)
  from h obtain b where "route_backend route = Inr b" using route_backend_returns by blast
  with route_backend_Inr[OF this] sock have b: "route_backend route = Inr (JStr sock)" by simp
  have "is_obj (case um sock of None \<Rightarrow> JObj [] | Some u \<Rightarrow> u)"
    using assms(2) by (auto simp: is_obj_def split: option.splits)
  then show ?thesis
    by (simp add: route_service_def py_get_obj[OF o] hosts b Let_def py_get_obj)
qed

lemma emap_returns: "list_all (\<lambda>x. \<exists>y. f x = Inr y) xs \<Longrightarrow> \<exists>ys. emap f xs = Inr ys"
  by (induction xs) auto

lemma dns_of_returns: "dyn_ok dyn_dns \<Longrightarrow> \<exists>dns. dns_of dyn_dns = Inr dns"
  by (simp add: dyn_ok_def dns_of_def py_get_obj)

lemma get_status_returns:
  assumes "payloads_ok routes_raw upstreams_raw tls_raw dyn_raw"
  shows "\<exists>out. get_status py_float fs routes_raw upstreams_raw tls_raw dyn_raw metrics_raw = Inr out"
proof -
  from assms obtain rs us where
    rs: "py_or routes_raw (JList []) = JList rs" "list_all route_ok rs"
    and us: "py_or upstreams_raw (JList []) = JList us" "list_all upstream_ok us"
    and tls: "tls_ok (py_or tls_raw (JObj []))"
    and dyn: "dyn_ok (py_or dyn_raw (JObj []))"
    by (auto simp: payloads_ok_def split: json.splits)
  obtain hm where hm: "parse_health py_float (case metrics_raw of None \<Rightarrow> [] | Some t \<Rightarrow> t) = Inr hm"
    using parse_health_returns by blast
  from us obtain um where um: "index_upstreams (py_or upstreams_raw (JList [])) = Inr um"
    and objs: "\<forall>a v. um a = Some v \<longrightarrow> is_obj v"
    using efold_index_step_ok[of us Map.empty] by (auto simp: index_upstreams_def)
  from rs(2) have "list_all (\<lambda>r. \<exists>rec. route_service fs hm um r = Inr rec) rs"
    by (auto simp: list_all_iff intro: route_service_returns[OF _ objs])
  then obtain recs where recs: "emap (route_service fs hm um) rs = Inr recs"
    using emap_returns by blast
  from tls_domains_of_shaped[OF tls] obtain td where
    td: "tls_domains_of (py_or tls_raw (JObj [])) = Inr td" by blast
  from dns_of_returns[OF dyn] obtain dns where dns: "dns_of (py_or dyn_raw (JObj [])) = Inr dns" ..
  show ?thesis
    by (simp add: get_status_def Let_def hm um rs(1) recs td dns)
qed

end
